theory Spec2Isabelle
  imports Complex_Main "HOL-Library.Multiset" "HOL-Library.AList"
begin

section \<open>Customer-to-pharmacy assignment and trip estimation (pharmalink)\<close>

text \<open>
  The development follows the routing notebook of the repository: the cell that assigns
  a pharmacy to every customer (\<^verbatim>\<open>chosen_pharmacies\<close>), the coroutines
  \<^verbatim>\<open>fetch_trip\<close>, \<^verbatim>\<open>process_customer\<close> and \<^verbatim>\<open>calculate_trips\<close>, and the notebook
  that builds the table of transport-mode probabilities (\<^verbatim>\<open>breaks\<close>, \<^verbatim>\<open>probs\<close>).

  Conventions. Python floats are modelled as \<^typ>\<open>real\<close>, so arithmetic is exact; the
  non-finite results that a division inside pandas can produce (\<^verbatim>\<open>inf\<close>, \<^verbatim>\<open>-inf\<close>,
  \<^verbatim>\<open>nan\<close>) are separate constructors of \<open>float\<close>. Every exception of the source is a value of
  \<^verbatim>\<open>error\<close>, returned as \<open>Inl\<close>. Random draws and the answers of the routing engine are
  explicit arguments. A dictionary is an association list with distinct keys; the
  tasks of \<^verbatim>\<open>asyncio.as_completed\<close> are taken in the order of submission, one of the
  possible orders of completion, and the statements proved do not depend on that order.
\<close>

subsection \<open>Errors\<close>

datatype error =
    ValueError
  | ZeroDivisionError
  | KeyError
  | IndexError
  | OutOfRangeError
  | NoViableMode

subsection \<open>Floats of pandas\<close>

text \<open>
  A pandas division never raises: \<^verbatim>\<open>x / 0.0\<close> is \<^verbatim>\<open>inf\<close> or \<^verbatim>\<open>-inf\<close> by the sign of
  \<open>x\<close>, and \<^verbatim>\<open>0.0 / 0.0\<close> is \<^verbatim>\<open>nan\<close>.
\<close>

datatype float = Finite real | PosInf | NegInf | NaN

definition fdiv :: "real \<Rightarrow> real \<Rightarrow> float" where
  "fdiv x y =
     (if y \<noteq> 0 then Finite (x / y)
      else if x = 0 then NaN
      else if 0 < x then PosInf
      else NegInf)"

subsection \<open>Assignment selector\<close>

text \<open>
  \<^verbatim>\<open>ph_locs\<close> and \<^verbatim>\<open>cus_locs\<close> are the geometries projected to EPSG:25832, a plane with
  metric coordinates. A GeoSeries is a list of rows, each a label (the index of the
  pharmacies frame) with its value.
\<close>

record point =
  px :: real
  py :: real

type_synonym pharmacy_id = nat

definition distance :: "point \<Rightarrow> point \<Rightarrow> real" where
  "distance p q = sqrt ((px p - px q)\<^sup>2 + (py p - py q)\<^sup>2)"

text \<open>\<^verbatim>\<open>ph_locs.distance(cus)\<close>: the distance of every pharmacy to the customer.\<close>

definition distances :: "(pharmacy_id \<times> point) list \<Rightarrow> point \<Rightarrow> (pharmacy_id \<times> real) list" where
  "distances ph_locs cus = map (\<lambda>(i, p). (i, distance p cus)) ph_locs"

text \<open>
  \<^verbatim>\<open>.sort_values(axis=0, ascending=True).head(3)\<close>: the rows in ascending order of
  distance, cut to the first three; \<^verbatim>\<open>head\<close> returns all rows of a shorter series.
  Rows of equal distance keep their order here; what is proved about the selector
  holds for any order among them.
\<close>

definition closest :: "(pharmacy_id \<times> point) list \<Rightarrow> point \<Rightarrow> (pharmacy_id \<times> real) list" where
  "closest ph_locs cus = take 3 (sort_key snd (distances ph_locs cus))"

text \<open>
  \<^verbatim>\<open>1 / closest\<close> is an elementwise float division: a distance of \<open>0.0\<close> gives \<^verbatim>\<open>inf\<close>, no
  exception.
\<close>

definition inverse_weight :: "real \<Rightarrow> float" where
  "inverse_weight d = fdiv 1 d"

text \<open>
  \<^verbatim>\<open>Series.sample(weights=...)\<close> with the default \<open>n = 1\<close>. pandas rejects a weight
  vector that holds an infinite or a negative value, replaces \<^verbatim>\<open>nan\<close> by 0, and rejects
  weights that sum to zero (which covers the empty series); it then divides the weights
  by their sum and numpy draws one position by inversion: the cumulative sums, divided
  by the last of them, are searched for the uniform draw \<open>u\<close> with
  \<^verbatim>\<open>searchsorted(side='right')\<close>.
\<close>

fun has_infs :: "float list \<Rightarrow> bool" where
  "has_infs [] = False"
| "has_infs (PosInf # ws) = True"
| "has_infs (NegInf # ws) = True"
| "has_infs (w # ws) = has_infs ws"

fun finite_weight :: "float \<Rightarrow> real" where
  "finite_weight (Finite w) = w"
| "finite_weight w = 0"

fun cumsum_from :: "real \<Rightarrow> real list \<Rightarrow> real list" where
  "cumsum_from acc [] = []"
| "cumsum_from acc (x # xs) = (acc + x) # cumsum_from (acc + x) xs"

definition cumsum :: "real list \<Rightarrow> real list" where
  "cumsum xs = cumsum_from 0 xs"

definition searchsorted_right :: "real list \<Rightarrow> real \<Rightarrow> nat" where
  "searchsorted_right a v = length (takeWhile (\<lambda>c. c \<le> v) a)"

definition choice :: "real list \<Rightarrow> real \<Rightarrow> nat" where
  "choice p u = (let cdf = cumsum p in searchsorted_right (map (\<lambda>c. c / last cdf) cdf) u)"

definition sample :: "('a \<times> real) list \<Rightarrow> float list \<Rightarrow> real \<Rightarrow> error + ('a \<times> real)" where
  "sample rows weights u =
     (if has_infs weights then Inl ValueError
      else if list_ex (\<lambda>w. finite_weight w < 0) weights then Inl ValueError
      else let ws = map finite_weight weights; weight_sum = sum_list ws in
        if weight_sum = 0 then Inl ValueError
        else let i = choice (map (\<lambda>w. w / weight_sum) ws) u in
          if i < length rows then Inr (rows ! i) else Inl IndexError)"

text \<open>
  One iteration of the loop over \<^verbatim>\<open>cus_locs\<close>:
  \<^verbatim>\<open>closest.sample(weights=1 / closest).index[0]\<close>. The uniform draw of the sample is the
  argument \<open>u\<close>; numpy draws it from the half-open interval from 0 to 1.
\<close>

definition chosen_pharmacy :: "(pharmacy_id \<times> point) list \<Rightarrow> point \<Rightarrow> real \<Rightarrow> error + pharmacy_id" where
  "chosen_pharmacy ph_locs cus u =
     (let c = closest ph_locs cus in
      case sample c (map (\<lambda>(i, d). inverse_weight d) c) u of
        Inl e \<Rightarrow> Inl e
      | Inr (i, d) \<Rightarrow> Inr i)"

text \<open>
  The whole loop: the list \<^verbatim>\<open>chosen_pharmacies\<close> grows by one label per customer, and an
  exception in any iteration ends the cell. \<open>draw n\<close> is the uniform draw of the \<open>n\<close>-th
  iteration.
\<close>

fun chosen_pharmacies :: "(pharmacy_id \<times> point) list \<Rightarrow> point list \<Rightarrow> (nat \<Rightarrow> real) \<Rightarrow> error + pharmacy_id list" where
  "chosen_pharmacies ph_locs [] draw = Inr []"
| "chosen_pharmacies ph_locs (cus # rest) draw =
     (case chosen_pharmacy ph_locs cus (draw 0) of
        Inl e \<Rightarrow> Inl e
      | Inr i \<Rightarrow> (case chosen_pharmacies ph_locs rest (\<lambda>n. draw (Suc n)) of
                    Inl e \<Rightarrow> Inl e
                  | Inr is \<Rightarrow> Inr (i # is)))"

subsection \<open>Trip fetcher\<close>

text \<open>
  The three costing models of the routing engine, the body of a \<^verbatim>\<open>/route\<close> request as
  \<^verbatim>\<open>fetch_trip\<close> builds it, and the part of the answer the notebook reads: the entry
  \<^verbatim>\<open>"trip"\<close> of the JSON body, \<open>None\<close> when the key is absent. Sending a request is
  an effect on the session: \<^verbatim>\<open>fetch_trip\<close> yields the request it has sent together with
  the pair that the coroutine returns, and \<^verbatim>\<open>process_customer\<close> yields the requests of
  its three tasks together with its outcome.
\<close>

datatype mot = auto | bicycle | pedestrian

record location =
  lat :: real
  lon :: real

record summary =
  summary_length :: real
  summary_time :: real
  has_toll :: bool
  has_highway :: bool
  has_ferry :: bool
  has_time_restrictions :: bool

record trip =
  locations :: "location list"
  legs :: "summary list"
  summary :: summary
  mot :: "mot option"

record params =
  params_id :: nat
  params_locations :: "location list"
  costing :: mot
  units :: string
  directions_type :: string

type_synonym engine = "params \<Rightarrow> trip option"

definition fetch_trip_params :: "nat \<Rightarrow> location list \<Rightarrow> mot \<Rightarrow> params" where
  "fetch_trip_params cus_id locs m =
     \<lparr>params_id = cus_id, params_locations = locs, costing = m,
      units = ''kilometers'', directions_type = ''none''\<rparr>"

definition fetch_trip ::
  "engine \<Rightarrow> nat \<Rightarrow> location list \<Rightarrow> mot \<Rightarrow> params \<times> (mot \<times> trip option)" where
  "fetch_trip session cus_id locs m =
     (let params = fetch_trip_params cus_id locs m in (params, (m, session params)))"

text \<open>
  A row of \<^verbatim>\<open>customers.itertuples()\<close>: the index, the geometry and the chosen pharmacy.
  \<^verbatim>\<open>pharmacies.loc[cus[2], "geometry"]\<close> raises \<^verbatim>\<open>KeyError\<close> for a label the frame lacks.
  The points of both frames are geographic: \<open>x\<close> is the longitude, \<open>y\<close> the latitude.
\<close>

type_synonym customer = "nat \<times> point \<times> pharmacy_id"

definition round_trip :: "point \<Rightarrow> point \<Rightarrow> location list" where
  "round_trip cus_loc ph_loc =
     (let start = \<lparr>lat = py cus_loc, lon = px cus_loc\<rparr>;
          end = start;
          target = \<lparr>lat = py ph_loc, lon = px ph_loc\<rparr>
      in [start, target, end])"

text \<open>
  The dictionary \<^verbatim>\<open>results\<close>: one entry per mode whose answer holds a trip. The three
  modes are distinct, so the entries do not depend on the order in which the tasks
  complete; they are listed in the order of submission.
\<close>

fun collect :: "(mot \<times> trip option) list \<Rightarrow> (mot \<times> trip) list" where
  "collect [] = []"
| "collect ((m, None) # rest) = collect rest"
| "collect ((m, Some t) # rest) = (m, t) # collect rest"

text \<open>
  \<^verbatim>\<open>sum([...]) / len(results)\<close>: Python raises \<^verbatim>\<open>ZeroDivisionError\<close> for an empty
  dictionary.
\<close>

definition avg_length :: "(mot \<times> trip) list \<Rightarrow> error + real" where
  "avg_length results =
     (if length results = 0 then Inl ZeroDivisionError
      else Inr (sum_list (map (\<lambda>(m, t). summary_length (summary t)) results)
                / real (length results)))"

text \<open>
  \<^verbatim>\<open>process_customer\<close>. The argument \<open>evaluate\<close> stands for the call
  \<^verbatim>\<open>src.evaluate_mode_of_transport(avg_length, results.keys())\<close>, whose module is not part
  of the notebook; \<^verbatim>\<open>results[chosen_mot]\<close> raises \<^verbatim>\<open>KeyError\<close> for a mode without entry.
\<close>

definition process_customer ::
  "engine \<Rightarrow> (pharmacy_id \<rightharpoonup> point) \<Rightarrow> (real \<Rightarrow> mot list \<Rightarrow> error + mot) \<Rightarrow> customer
     \<Rightarrow> params list \<times> (error + (nat \<times> trip))" where
  "process_customer session pharmacies evaluate cus =
     (case cus of (cus_id, cus_loc, chosen) \<Rightarrow>
        (case pharmacies chosen of
           None \<Rightarrow> ([], Inl KeyError)
         | Some ph_loc \<Rightarrow>
             (let locs = round_trip cus_loc ph_loc;
                  tasks = map (fetch_trip session cus_id locs) [auto, bicycle, pedestrian];
                  results = collect (map snd tasks)
              in (map fst tasks,
                  case avg_length results of
                    Inl e \<Rightarrow> Inl e
                  | Inr avg \<Rightarrow>
                      (case evaluate avg (map fst results) of
                         Inl e \<Rightarrow> Inl e
                       | Inr chosen_mot \<Rightarrow>
                           (case map_of results chosen_mot of
                              None \<Rightarrow> Inl KeyError
                            | Some t \<Rightarrow> Inr (cus_id, t\<lparr>mot := Some chosen_mot\<rparr>)))))))"

subsection \<open>Lifecycle of the routing engine and the batch\<close>

text \<open>
  The operations on the container that \<^verbatim>\<open>calculate_trips\<close> performs, in order, with the
  pauses between them. \<open>health n\<close> is the value of \<^verbatim>\<open>valhalla_instance.health\<close> after \<open>n\<close>
  calls of \<^verbatim>\<open>reload()\<close>.
\<close>

datatype event = Start | Sleep real | Reload | Stop

text \<open>
  \<^verbatim>\<open>while valhalla_instance.health != "healthy"\<close>: the loop has no other exit, so it is a
  partial function; the result is the number of reloads, \<open>None\<close> when the loop never ends.
\<close>

partial_function (option) await_ready :: "(nat \<Rightarrow> string) \<Rightarrow> nat \<Rightarrow> nat option" where
  "await_ready health n =
     (if health n \<noteq> ''healthy'' then await_ready health (Suc n) else Some n)"

text \<open>
  The loop over the customer tasks: \<^verbatim>\<open>trips.update(await task)\<close>; the first exception
  leaves the loop and the coroutine.
\<close>

fun gather :: "(error + (nat \<times> trip)) list \<Rightarrow> (nat \<times> trip) list \<Rightarrow> error + (nat \<times> trip) list" where
  "gather [] trips = Inr trips"
| "gather (Inl e # tasks) trips = Inl e"
| "gather (Inr (cus_id, t) # tasks) trips = gather tasks (AList.update cus_id t trips)"

text \<open>
  \<^verbatim>\<open>calculate_trips\<close>: the events up to the point where the coroutine ends, with the
  returned dictionary or the exception. \<open>evaluate cus_id\<close> is the call of the mode
  inference made for that customer; each task contributes the outcome of
  \<^verbatim>\<open>process_customer\<close>.
\<close>

definition calculate_trips ::
  "(nat \<Rightarrow> string) \<Rightarrow> engine \<Rightarrow> (pharmacy_id \<rightharpoonup> point) \<Rightarrow> (nat \<Rightarrow> real \<Rightarrow> mot list \<Rightarrow> error + mot)
     \<Rightarrow> customer list \<Rightarrow> (event list \<times> (error + (nat \<times> trip) list)) option" where
  "calculate_trips health session pharmacies evaluate customers =
     (case await_ready health 0 of
        None \<Rightarrow> None
      | Some n \<Rightarrow>
          (let started = Start # concat (replicate n [Sleep (1 / 10), Reload]) @ [Sleep 1];
               tasks = map (\<lambda>cus. snd (process_customer session pharmacies (evaluate (fst cus)) cus))
                           customers
           in case gather tasks [] of
                Inl e \<Rightarrow> Some (started, Inl e)
              | Inr trips \<Rightarrow> Some (started @ [Stop], Inr trips)))"

subsection \<open>Mode probability table\<close>

text \<open>
  The notebook of the transport modes: the buckets of the table, the division of the
  rows by their sums, and the table that the notebook shows as the result of its run.
\<close>

text \<open>
  \<^verbatim>\<open>breaks\<close> and \<^verbatim>\<open>pd.IntervalIndex.from_breaks(breaks, closed="left")\<close>: consecutive breaks
  bound an interval that contains its left end and not its right end.
\<close>

definition breaks :: "float list" where
  "breaks = [Finite 0, Finite (1 / 2), Finite 1, Finite 2, Finite 5, Finite 10,
             Finite 20, Finite 50, Finite 100, PosInf]"

fun from_breaks :: "float list \<Rightarrow> (float \<times> float) list" where
  "from_breaks (a # b # rest) = (a, b) # from_breaks (b # rest)"
| "from_breaks rest = []"

fun le_real :: "float \<Rightarrow> real \<Rightarrow> bool" where
  "le_real (Finite a) x = (a \<le> x)"
| "le_real NegInf x = True"
| "le_real PosInf x = False"
| "le_real NaN x = False"

fun gt_real :: "float \<Rightarrow> real \<Rightarrow> bool" where
  "gt_real (Finite a) x = (x < a)"
| "gt_real PosInf x = True"
| "gt_real NegInf x = False"
| "gt_real NaN x = False"

fun contains :: "float \<times> float \<Rightarrow> real \<Rightarrow> bool" where
  "contains (left, right) x = (le_real left x \<and> gt_real right x)"

definition index :: "(float \<times> float) list" where
  "index = from_breaks breaks"

text \<open>
  Modelled from the spec: the lookup of the bucket of a length. The notebook builds the
  intervals and persists the breaks; the lookup itself is a step of
  \<^verbatim>\<open>evaluate_mode_of_transport\<close>, which is not among the sources. As the specification
  says, it locates the bucket whose left-closed interval contains the length: the
  position of the first such interval, \<^verbatim>\<open>KeyError\<close> when there is none (as
  \<^verbatim>\<open>IntervalIndex.get_loc\<close> does for the index of the notebook).
\<close>

definition get_loc :: "(float \<times> float) list \<Rightarrow> real \<Rightarrow> error + nat" where
  "get_loc idx x =
     (case filter (\<lambda>i. contains (idx ! i) x) [0 ..< length idx] of
        [] \<Rightarrow> Inl KeyError
      | i # _ \<Rightarrow> Inr i)"

text \<open>
  The frame \<^verbatim>\<open>probs\<close> as it stands before the division: one row per distance class with
  the columns auto, bicycle and pedestrian. A cell is a share or \<^verbatim>\<open>nan\<close> (\<open>None\<close>): the
  file marks a missing value by \<^verbatim>\<open>"-"\<close>, which \<^verbatim>\<open>read_csv\<close> reads as \<^verbatim>\<open>nan\<close>, and the sum of
  the motorised shares is \<^verbatim>\<open>nan\<close> when one of them is. The notebook overwrites one such
  cell, \<^verbatim>\<open>probs.iloc[0, 8] = "0 %"\<close>, which makes it the share 0; a missing value in any
  other cell stays \<^verbatim>\<open>nan\<close>. The file itself is not among the sources, so the frame is an
  argument.

  \<^verbatim>\<open>probs.agg(axis=1, func="sum")\<close>: the sum of a row; pandas leaves \<^verbatim>\<open>nan\<close> out of a sum,
  and the sum of no value is 0.
\<close>

definition row_sum :: "(mot \<times> real option) list \<Rightarrow> real" where
  "row_sum row = sum_list (map (\<lambda>(m, c). case c of None \<Rightarrow> 0 | Some x \<Rightarrow> x) row)"

text \<open>
  \<^verbatim>\<open>probs.div(probs.agg(axis=1, func="sum"), axis=0)\<close>, for one row: every cell is divided
  by the sum of its row, and \<^verbatim>\<open>nan\<close> stays \<^verbatim>\<open>nan\<close>.
\<close>

definition normalize :: "(mot \<times> real option) list \<Rightarrow> (mot \<times> float) list" where
  "normalize row =
     map (\<lambda>(m, c). (m, case c of None \<Rightarrow> NaN | Some x \<Rightarrow> fdiv x (row_sum row))) row"



subsection \<open>Mode inference\<close>

text \<open>
  \<^verbatim>\<open>evaluate_mode_of_transport\<close> of the module \<^verbatim>\<open>pharmalink.code.sources\<close> is called by
  \<^verbatim>\<open>process_customer\<close> and is not among the sources, so the definitions of this
  subsection follow the specification, which describes it: the table holds the breaks and, per bucket,
  a mapping from mode to probability; the bucket is the one whose left-closed interval
  contains the average length; a negative length fails with \<^verbatim>\<open>OutOfRangeError\<close>; the row
  is restricted to the available modes and renormalised to sum to 1; when none of the
  available modes carries probability mass, the choice is uniform among them; one mode
  is drawn by weighted random sampling. The uniform draw is the argument \<open>u\<close>, and the
  sampling is the inversion that \<open>choice\<close> performs. With no available mode there is
  nothing to draw from: the result is \<^verbatim>\<open>NoViableMode\<close>.
\<close>






subsection \<open>Example inputs\<close>

text \<open>
  Concrete inputs for the evaluations below: a customer at the origin of the projected
  plane with pharmacies on the same axis, an engine that knows routes for customer 10
  only, an engine that finds no route by car, a stand-in for the mode inference that returns the first available mode, two
  customers of the pharmacy 0, three rows of shares (a complete one, one with a missing
  motorised share, one without mass), a probability row with the weights 0.477, 0.216 and
  0.307 and a table that uses it for every bucket, and three health histories of the
  container.
\<close>

definition origin :: point where
  "origin = \<lparr>px = 0, py = 0\<rparr>"

definition at_x :: "real \<Rightarrow> point" where
  "at_x x = \<lparr>px = x, py = 0\<rparr>"

definition example_trip :: "real \<Rightarrow> trip" where
  "example_trip l =
     \<lparr>locations = [], legs = [],
      summary = \<lparr>summary_length = l, summary_time = 60 * l, has_toll = False,
                 has_highway = False, has_ferry = False, has_time_restrictions = False\<rparr>,
      mot = None\<rparr>"

definition example_engine :: engine where
  "example_engine r =
     (if params_id r = 10 then
        (case costing r of
           auto \<Rightarrow> Some (example_trip 4)
         | bicycle \<Rightarrow> Some (example_trip 3)
         | pedestrian \<Rightarrow> None)
      else None)"

definition example_pharmacies :: "pharmacy_id \<rightharpoonup> point" where
  "example_pharmacies = [0 \<mapsto> \<lparr>px = 11, py = 48\<rparr>]"

definition first_available :: "real \<Rightarrow> mot list \<Rightarrow> error + mot" where
  "first_available avg available = (case available of [] \<Rightarrow> Inl ValueError | m # _ \<Rightarrow> Inr m)"

definition example_evaluate :: "nat \<Rightarrow> real \<Rightarrow> mot list \<Rightarrow> error + mot" where
  "example_evaluate cus_id = first_available"

definition served_customer :: customer where
  "served_customer = (10, \<lparr>px = 12, py = 49\<rparr>, 0)"

definition stranded_customer :: customer where
  "stranded_customer = (20, \<lparr>px = 12, py = 49\<rparr>, 0)"

definition example_rows :: "(mot \<times> real option) list list" where
  "example_rows =
     [[(auto, Some (47 / 100)), (bicycle, Some (20 / 100)), (pedestrian, Some (28 / 100))],
      [(auto, None), (bicycle, Some (20 / 100)), (pedestrian, Some (30 / 100))],
      [(auto, Some 0), (bicycle, Some 0), (pedestrian, Some 0)]]"



definition example_draw :: "nat \<Rightarrow> real" where
  "example_draw n = (if n = 0 then 9 / 10 else 1 / 10)"


definition always_healthy :: "nat \<Rightarrow> string" where
  "always_healthy n = ''healthy''"

definition healthy_after_two :: "nat \<Rightarrow> string" where
  "healthy_after_two n = (if n < 2 then ''starting'' else ''healthy'')"

definition never_healthy :: "nat \<Rightarrow> string" where
  "never_healthy n = ''starting''"

section \<open>Properties of the assignment selector\<close>

subsection \<open>Distances and the candidate list\<close>

lemma distance_nonneg: "0 \<le> distance p q"
  by (simp add: distance_def)

lemma distance_at_x: "distance (at_x a) origin = \<bar>a\<bar>"
  by (simp add: distance_def at_x_def origin_def)

lemma distance_origin: "distance origin origin = 0"
  by (simp add: distance_def origin_def)

lemma length_closest: "length (closest ph_locs cus) = min 3 (length ph_locs)"
  by (simp add: closest_def distances_def min.commute)

lemma closest_nth:
  assumes "k < length (closest ph_locs cus)"
  shows "closest ph_locs cus ! k = sort_key snd (distances ph_locs cus) ! k"
    and "k < 3" and "k < length ph_locs"
  using assms by (auto simp: closest_def distances_def)

lemma closest_subset:
  assumes "(i, d) \<in> set (closest ph_locs cus)"
  shows "\<exists>p. (i, p) \<in> set ph_locs \<and> d = distance p cus"
proof -
  from assms have "(i, d) \<in> set (distances ph_locs cus)"
    unfolding closest_def by (metis in_set_takeD set_sort)
  then show ?thesis by (auto simp: distances_def)
qed

lemma closest_all:
  assumes "length ph_locs \<le> 3"
  shows "mset (map fst (closest ph_locs cus)) = mset (map fst ph_locs)"
proof -
  have "closest ph_locs cus = sort_key snd (distances ph_locs cus)"
    using assms by (simp add: closest_def distances_def)
  then have "mset (closest ph_locs cus) = mset (distances ph_locs cus)" by simp
  then have "mset (map fst (closest ph_locs cus)) = mset (map fst (distances ph_locs cus))"
    by (metis mset_map)
  moreover have "map fst (distances ph_locs cus) = map fst ph_locs"
    by (simp add: distances_def comp_def case_prod_unfold)
  ultimately show ?thesis by simp
qed

text \<open>
  In a list sorted by a key, the entries with a key strictly below that of position
  \<open>k\<close> all lie before \<open>k\<close>.
\<close>

lemma filter_sorted_below:
  assumes "sorted (map f xs)" and "k < length xs"
  shows "length (filter (\<lambda>x. f x < f (xs ! k)) xs) \<le> k"
proof -
  have "\<forall>x \<in> set (drop k xs). \<not> f x < f (xs ! k)"
  proof
    fix x assume "x \<in> set (drop k xs)"
    then obtain j where j: "j < length (drop k xs)" "x = drop k xs ! j"
      by (auto simp: in_set_conv_nth)
    then have "x = xs ! (k + j)" and "k + j < length xs" by auto
    moreover have "map f xs ! k \<le> map f xs ! (k + j)"
      using assms(1) \<open>k + j < length xs\<close> by (intro sorted_nth_mono) auto
    ultimately show "\<not> f x < f (xs ! k)" using assms(2) by auto
  qed
  then have "filter (\<lambda>x. f x < f (xs ! k)) (drop k xs) = []"
    by (simp add: filter_empty_conv)
  then have "filter (\<lambda>x. f x < f (xs ! k)) xs = filter (\<lambda>x. f x < f (xs ! k)) (take k xs)"
    by (metis append_Nil2 append_take_drop_id filter_append)
  then have "length (filter (\<lambda>x. f x < f (xs ! k)) xs) \<le> length (take k xs)"
    by (metis length_filter_le)
  then show ?thesis by simp
qed

lemma length_filter_sort_key:
  "length (filter P (sort_key f xs)) = length (filter P xs)"
proof -
  have "mset (filter P (sort_key f xs)) = mset (filter P xs)" by simp
  then show ?thesis by (metis size_mset)
qed

lemma nearer_count:
  assumes "k < length (closest ph_locs cus)" and "closest ph_locs cus ! k = (i, d)"
  shows "length (filter (\<lambda>(j, q). distance q cus < d) ph_locs) \<le> k"
proof -
  let ?ds = "distances ph_locs cus"
  let ?s = "sort_key snd ?ds"
  have k: "k < length ?s" and sk: "?s ! k = (i, d)"
    using assms closest_nth[OF assms(1)] by (auto simp: distances_def)
  have "length (filter (\<lambda>x. snd x < snd (?s ! k)) ?s) \<le> k"
    using k by (intro filter_sorted_below) auto
  then have "length (filter (\<lambda>x. snd x < d) ?ds) \<le> k"
    by (simp add: sk length_filter_sort_key)
  moreover have "length (filter (\<lambda>x. snd x < d) ?ds)
      = length (filter (\<lambda>(j, q). distance q cus < d) ph_locs)"
    by (simp add: distances_def filter_map comp_def case_prod_unfold)
  ultimately show ?thesis by simp
qed

lemma sorted_hd_least:
  assumes "sorted (map f xs)" and "x \<in> set xs"
  shows "f (hd xs) \<le> f x"
  using assms by (cases xs) auto

lemma closest_hd_zero:
  assumes "(i, p) \<in> set ph_locs" and "distance p cus = 0"
  shows "\<exists>j rest. closest ph_locs cus = (j, 0) # rest"
proof -
  let ?s = "sort_key snd (distances ph_locs cus)"
  have mem: "(i, 0) \<in> set ?s"
    using assms by (force simp: distances_def)
  then have ne: "?s \<noteq> []" by (metis empty_iff empty_set)
  have "snd (hd ?s) \<le> snd (i, 0::real)"
    using mem by (intro sorted_hd_least) auto
  moreover have "hd ?s \<in> set (distances ph_locs cus)" using ne by (metis hd_in_set set_sort)
  then have "0 \<le> snd (hd ?s)" by (auto simp: distances_def distance_nonneg)
  ultimately have "snd (hd ?s) = 0" by simp
  then obtain j where "hd ?s = (j, 0)" by (metis prod.collapse)
  then obtain rest where "?s = (j, 0) # rest" using ne by (metis list.collapse)
  then show ?thesis by (simp add: closest_def)
qed

subsection \<open>Sampling\<close>

lemma cumsum_from_length [simp]: "length (cumsum_from acc xs) = length xs"
  by (induction xs arbitrary: acc) auto

lemma cumsum_from_last: "xs \<noteq> [] \<Longrightarrow> last (cumsum_from acc xs) = acc + sum_list xs"
proof (induction xs arbitrary: acc)
  case Nil
  then show ?case by simp
next
  case (Cons x xs)
  show ?case
  proof (cases "xs = []")
    case True
    then show ?thesis by simp
  next
    case False
    then have "cumsum_from (acc + x) xs \<noteq> []" by (cases xs) auto
    with Cons.IH[OF False, of "acc + x"] show ?thesis by simp
  qed
qed

lemma searchsorted_right_less:
  assumes "a \<noteq> []" and "v < last a"
  shows "searchsorted_right a v < length a"
proof -
  have "\<not> (\<forall>c \<in> set a. c \<le> v)" using assms by (metis last_in_set not_le)
  then have "takeWhile (\<lambda>c. c \<le> v) a \<noteq> a" by simp
  then have "length (takeWhile (\<lambda>c. c \<le> v) a) \<noteq> length a"
    by (metis takeWhile_eq_take take_all order_refl)
  then show ?thesis
    unfolding searchsorted_right_def using length_takeWhile_le[of "\<lambda>c. c \<le> v" a] by linarith
qed

text \<open>A draw below 1 always selects a position of the weight vector.\<close>

lemma choice_less:
  assumes "p \<noteq> []" and "sum_list p \<noteq> 0" and "u < 1"
  shows "choice p u < length p"
proof -
  let ?cdf = "cumsum p"
  have ne: "?cdf \<noteq> []" using assms(1) by (cases p) (auto simp: cumsum_def)
  have l: "last ?cdf = sum_list p" using assms(1) by (simp add: cumsum_def cumsum_from_last)
  have "last (map (\<lambda>c. c / last ?cdf) ?cdf) = 1"
    using ne l assms(2) by (simp add: last_map)
  then have "searchsorted_right (map (\<lambda>c. c / last ?cdf) ?cdf) u
      < length (map (\<lambda>c. c / last ?cdf) ?cdf)"
    using ne assms(3) by (intro searchsorted_right_less) auto
  then show ?thesis by (simp add: choice_def Let_def cumsum_def)
qed

lemma sum_list_pos_real:
  fixes xs :: "real list"
  assumes "xs \<noteq> []" and "\<forall>x \<in> set xs. 0 < x"
  shows "0 < sum_list xs"
  using assms by (induction xs) (auto intro: add_pos_nonneg sum_list_nonneg less_imp_le)

lemma sum_list_divide:
  fixes xs :: "real list"
  shows "sum_list (map (\<lambda>w. w / c) xs) = sum_list xs / c"
  by (induction xs) (auto simp: add_divide_distrib)

lemma has_infs_finite: "\<forall>w \<in> set weights. \<exists>x. w = Finite x \<Longrightarrow> \<not> has_infs weights"
  by (induction weights rule: has_infs.induct) auto

lemma sample_Inr_nth:
  "sample rows ws u = Inr r \<Longrightarrow> \<exists>i < length rows. r = rows ! i"
  by (auto simp: sample_def Let_def split: if_splits)

lemma sample_positive:
  assumes "rows \<noteq> []" and "length weights = length rows"
    and "\<forall>w \<in> set weights. \<exists>x. w = Finite x \<and> 0 < x" and "u < 1"
  shows "\<exists>r \<in> set rows. sample rows weights u = Inr r"
proof -
  let ?ws = "map finite_weight weights"
  have ne: "?ws \<noteq> []" using assms(1,2) by auto
  have pos: "\<forall>x \<in> set ?ws. 0 < x" using assms(3) by auto
  have s: "0 < sum_list ?ws" by (rule sum_list_pos_real[OF ne pos])
  have noinf: "\<not> has_infs weights" using assms(3) by (intro has_infs_finite) blast
  have noneg: "\<not> list_ex (\<lambda>w. finite_weight w < 0) weights"
    using pos by (auto simp: list_ex_iff not_less intro: less_imp_le)
  let ?p = "map (\<lambda>w. w / sum_list ?ws) ?ws"
  have "sum_list ?p = sum_list ?ws / sum_list ?ws"
    by (rule sum_list_divide)
  then have "sum_list ?p \<noteq> 0" using s by simp
  moreover have "?p \<noteq> []" using ne by simp
  ultimately have "choice ?p u < length ?p" using assms(4) by (intro choice_less)
  then have i: "choice ?p u < length rows" using assms(2) by simp
  then have "sample rows weights u = Inr (rows ! choice ?p u)"
    using noinf noneg s by (simp add: sample_def Let_def)
  then show ?thesis using i by (metis nth_mem)
qed

lemma chosen_pharmacy_Inr:
  assumes "chosen_pharmacy ph_locs cus u = Inr i"
  shows "\<exists>k d. k < length (closest ph_locs cus) \<and> closest ph_locs cus ! k = (i, d)"
proof -
  from assms obtain d where
    "sample (closest ph_locs cus) (map (\<lambda>(i, d). inverse_weight d) (closest ph_locs cus)) u = Inr (i, d)"
    by (auto simp: chosen_pharmacy_def Let_def split: sum.splits prod.splits)
  from sample_Inr_nth[OF this] obtain k
    where "k < length (closest ph_locs cus)" "(i, d) = closest ph_locs cus ! k"
    by blast
  then show ?thesis by metis
qed

subsection \<open>A pharmacy at the customer's own position\<close>

text \<open>
  Claim C4 asks that a customer with a candidate pharmacy at distance zero is assigned
  that pharmacy without computing the inverse weight. The cell does something else:
  whenever some pharmacy lies at distance zero, that pharmacy heads the candidate
  list, its weight \<^verbatim>\<open>1 / 0.0\<close> is infinite, and the sample is refused with \<^verbatim>\<open>ValueError\<close>,
  whatever the other pharmacies and the random draw are. No pharmacy is assigned.
\<close>

theorem zero_distance_rejected:
  assumes "(i, p) \<in> set ph_locs" and "distance p cus = 0"
  shows "chosen_pharmacy ph_locs cus u = Inl ValueError"
proof -
  from closest_hd_zero[OF assms] obtain j rest
    where c: "closest ph_locs cus = (j, 0) # rest" by blast
  show ?thesis
    by (simp add: chosen_pharmacy_def c inverse_weight_def fdiv_def sample_def)
qed

theorem zero_distance_rejected_witness:
  "(5, origin) \<in> set [(4, at_x 3), (5, origin)] \<and> distance origin origin = 0
   \<and> chosen_pharmacy [(4, at_x 3), (5, origin)] origin (1 / 2) = Inl ValueError"
proof -
  have h1: "(5, origin) \<in> set [(4::nat, at_x 3), (5, origin)]" by simp
  have h2: "distance origin origin = 0" by (rule distance_origin)
  from zero_distance_rejected[OF h1 h2] h1 h2 show ?thesis by simp
qed

subsection \<open>The assigned pharmacy is one of the three nearest\<close>

text \<open>One iteration: a returned label is one of the three nearest pharmacies.\<close>

lemma chosen_pharmacy_among_three_nearest:
  assumes "chosen_pharmacy ph_locs cus u = Inr i"
  shows "\<exists>p. (i, p) \<in> set ph_locs \<and>
             length (filter (\<lambda>(j, q). distance q cus < distance p cus) ph_locs) < 3"
proof -
  from chosen_pharmacy_Inr[OF assms] obtain k d
    where k: "k < length (closest ph_locs cus)" and c: "closest ph_locs cus ! k = (i, d)"
    by blast
  from k c have "(i, d) \<in> set (closest ph_locs cus)" by (metis nth_mem)
  from closest_subset[OF this] obtain p
    where p: "(i, p) \<in> set ph_locs" "d = distance p cus" by blast
  have "length (filter (\<lambda>(j, q). distance q cus < d) ph_locs) \<le> k"
    by (rule nearer_count[OF k c])
  moreover have "k < 3" using closest_nth(2)[OF k] .
  ultimately show ?thesis using p by auto
qed

text \<open>
  The loop: the list it returns has one label per customer, in the order of the
  customers, and the label at position \<open>k\<close> is the one that the iteration for customer
  \<open>k\<close> chose with the draw \<open>k\<close>.
\<close>

lemma chosen_pharmacies_nth:
  assumes "chosen_pharmacies ph_locs cus_locs draw = Inr assigned"
  shows "length assigned = length cus_locs
       \<and> (\<forall>k < length cus_locs.
             chosen_pharmacy ph_locs (cus_locs ! k) (draw k) = Inr (assigned ! k))"
  using assms
proof (induction cus_locs arbitrary: draw assigned)
  case Nil
  then show ?case by simp
next
  case (Cons cus rest)
  from Cons.prems obtain i others where i: "chosen_pharmacy ph_locs cus (draw 0) = Inr i"
    and r: "chosen_pharmacies ph_locs rest (\<lambda>n. draw (Suc n)) = Inr others"
    and a: "assigned = i # others"
    by (auto split: sum.splits)
  from Cons.IH[OF r] have len: "length others = length rest"
    and nth: "\<And>k. k < length rest \<Longrightarrow>
        chosen_pharmacy ph_locs (rest ! k) (draw (Suc k)) = Inr (others ! k)"
    by simp_all
  have "chosen_pharmacy ph_locs ((cus # rest) ! k) (draw k) = Inr (assigned ! k)"
    if "k < length (cus # rest)" for k
  proof (cases k)
    case 0
    then show ?thesis using i a by simp
  next
    case (Suc k')
    then show ?thesis using nth[of k'] that a by simp
  qed
  then show ?case using len a by simp
qed

text \<open>
  Claim C5: when the loop over the customers completes, the list written to
  \<^verbatim>\<open>customers["chosen_pharmacy"]\<close> has one label per customer, and the label of every
  customer is a pharmacy of the frame such that a comparison of its distance with the
  distance of every pharmacy finds fewer than three pharmacies strictly nearer to
  that customer: it is one of the three nearest.
\<close>

theorem assigned_among_three_nearest:
  assumes "chosen_pharmacies ph_locs cus_locs draw = Inr assigned"
  shows "length assigned = length cus_locs
       \<and> (\<forall>k < length cus_locs.
             \<exists>p. (assigned ! k, p) \<in> set ph_locs
                \<and> length (filter (\<lambda>(j, q). distance q (cus_locs ! k) < distance p (cus_locs ! k))
                                ph_locs) < 3)"
proof -
  from chosen_pharmacies_nth[OF assms] have len: "length assigned = length cus_locs"
    and nth: "\<And>k. k < length cus_locs \<Longrightarrow>
        chosen_pharmacy ph_locs (cus_locs ! k) (draw k) = Inr (assigned ! k)"
    by simp_all
  have "\<exists>p. (assigned ! k, p) \<in> set ph_locs
          \<and> length (filter (\<lambda>(j, q). distance q (cus_locs ! k) < distance p (cus_locs ! k))
                          ph_locs) < 3"
    if "k < length cus_locs" for k
    using chosen_pharmacy_among_three_nearest[OF nth[OF that]] .
  with len show ?thesis by simp
qed

lemma distance_at_x_at_x: "distance (at_x a) (at_x b) = \<bar>a - b\<bar>"
  by (simp add: distance_def at_x_def)

theorem assigned_among_three_nearest_witness:
  "chosen_pharmacies [(5, at_x 9), (6, at_x 4), (7, at_x 1), (8, at_x 2)] [at_x 0, at_x 10]
       example_draw = Inr [6, 5]
   \<and> (\<exists>p. (6, p) \<in> set [(5::nat, at_x 9), (6, at_x 4), (7, at_x 1), (8, at_x 2)]
          \<and> length (filter (\<lambda>(j, q). distance q (at_x 0) < distance p (at_x 0))
                          [(5::nat, at_x 9), (6, at_x 4), (7, at_x 1), (8, at_x 2)]) < 3)
   \<and> (\<exists>p. (5, p) \<in> set [(5::nat, at_x 9), (6, at_x 4), (7, at_x 1), (8, at_x 2)]
          \<and> length (filter (\<lambda>(j, q). distance q (at_x 10) < distance p (at_x 10))
                          [(5::nat, at_x 9), (6, at_x 4), (7, at_x 1), (8, at_x 2)]) < 3)"
proof -
  let ?phs = "[(5::nat, at_x 9), (6, at_x 4), (7, at_x 1), (8, at_x 2)]"
  have c0: "chosen_pharmacy ?phs (at_x 0) (9 / 10) = Inr 6"
    by (simp add: chosen_pharmacy_def closest_def distances_def distance_at_x_at_x inverse_weight_def
        fdiv_def sample_def choice_def cumsum_def searchsorted_right_def)
  have c1: "chosen_pharmacy ?phs (at_x 10) (1 / 10) = Inr 5"
    by (simp add: chosen_pharmacy_def closest_def distances_def distance_at_x_at_x inverse_weight_def
        fdiv_def sample_def choice_def cumsum_def searchsorted_right_def)
  have h: "chosen_pharmacies ?phs [at_x 0, at_x 10] example_draw = Inr [6, 5]"
    by (simp add: c0 c1 example_draw_def)
  from assigned_among_three_nearest[OF h]
  have "\<forall>k < 2. \<exists>p. (([6, 5] :: nat list) ! k, p) \<in> set ?phs
          \<and> length (filter (\<lambda>(j, q). distance q ([at_x 0, at_x 10] ! k) < distance p ([at_x 0, at_x 10] ! k))
                          ?phs) < 3"
    by simp
  then have "\<exists>p. (([6, 5] :: nat list) ! 0, p) \<in> set ?phs
          \<and> length (filter (\<lambda>(j, q). distance q ([at_x 0, at_x 10] ! 0) < distance p ([at_x 0, at_x 10] ! 0))
                          ?phs) < 3"
    and "\<exists>p. (([6, 5] :: nat list) ! 1, p) \<in> set ?phs
          \<and> length (filter (\<lambda>(j, q). distance q ([at_x 0, at_x 10] ! 1) < distance p ([at_x 0, at_x 10] ! 1))
                          ?phs) < 3"
    by (metis zero_less_numeral, metis one_less_numeral_iff semiring_norm(76))
  then show ?thesis using h by simp
qed

subsection \<open>Fewer than three pharmacies\<close>

text \<open>
  Claim C10 says that the selector returns an assignment for every customer when the
  area has at least one and fewer than three pharmacies. A single pharmacy at the
  customer's own position refutes it as stated: the sample is refused.
\<close>

theorem single_pharmacy_at_zero_distance:
  "chosen_pharmacy [(7, origin)] origin (1 / 2) = Inl ValueError"
  by (simp add: chosen_pharmacy_def closest_def distances_def distance_origin
      inverse_weight_def fdiv_def sample_def)

text \<open>
  Claim C10, amended: for a customer with at least one pharmacy in the area and none
  of them at distance zero, and a draw below 1, the candidate list has
  \<open>min 3 n\<close> entries, it holds all \<open>n\<close> pharmacies when \<open>n\<close> is at most three, and the
  selector returns one of the candidates. A short candidate list is no failure.
\<close>

theorem short_candidate_list:
  assumes "ph_locs \<noteq> []"
    and "\<forall>(i, p) \<in> set ph_locs. distance p cus \<noteq> 0"
    and "u < 1"
  shows "length (closest ph_locs cus) = min 3 (length ph_locs)
       \<and> (length ph_locs \<le> 3 \<longrightarrow> mset (map fst (closest ph_locs cus)) = mset (map fst ph_locs))
       \<and> (\<exists>i \<in> fst ` set (closest ph_locs cus). chosen_pharmacy ph_locs cus u = Inr i)"
proof -
  let ?c = "closest ph_locs cus"
  let ?w = "map (\<lambda>(i, d). inverse_weight d) ?c"
  have ne: "?c \<noteq> []" using assms(1) length_closest[of ph_locs cus] by (cases ph_locs) auto
  have pos: "\<forall>w \<in> set ?w. \<exists>x. w = Finite x \<and> 0 < x"
  proof
    fix w assume "w \<in> set ?w"
    then obtain i d where id: "(i, d) \<in> set ?c" "w = inverse_weight d" by auto
    from closest_subset[OF id(1)] obtain p
      where p: "(i, p) \<in> set ph_locs" "d = distance p cus" by blast
    then have "d \<noteq> 0" using assms(2) by auto
    moreover have "0 \<le> d" using p(2) by (simp add: distance_nonneg)
    ultimately show "\<exists>x. w = Finite x \<and> 0 < x"
      using id(2) by (simp add: inverse_weight_def fdiv_def)
  qed
  have "\<exists>r \<in> set ?c. sample ?c ?w u = Inr r"
    using ne pos assms(3) by (intro sample_positive) auto
  then obtain i d where "(i, d) \<in> set ?c" "sample ?c ?w u = Inr (i, d)" by (metis surj_pair)
  then have "i \<in> fst ` set ?c" "chosen_pharmacy ph_locs cus u = Inr i"
    by (auto simp: chosen_pharmacy_def Let_def image_iff intro: bexI[of _ "(i, d)"])
  then show ?thesis using length_closest closest_all by blast
qed

theorem short_candidate_list_witness:
  "[(7, at_x 4), (8, at_x 1)] \<noteq> []
   \<and> distance (at_x 4) origin \<noteq> 0 \<and> distance (at_x 1) origin \<noteq> 0
   \<and> (1 / 2 :: real) < 1
   \<and> length (closest [(7, at_x 4), (8, at_x 1)] origin) = 2
   \<and> chosen_pharmacy [(7, at_x 4), (8, at_x 1)] origin (1 / 2) = Inr 8"
proof -
  let ?phs = "[(7::nat, at_x 4), (8, at_x 1)]"
  have h1: "?phs \<noteq> []" by simp
  have h2: "\<forall>(i, p) \<in> set ?phs. distance p origin \<noteq> 0" by (simp add: distance_at_x)
  have h3: "(1 / 2 :: real) < 1" by simp
  have e: "chosen_pharmacy ?phs origin (1 / 2) = Inr 8"
    by (simp add: chosen_pharmacy_def closest_def distances_def distance_at_x sample_def
        inverse_weight_def fdiv_def choice_def cumsum_def searchsorted_right_def)
  from short_candidate_list[OF h1 h2 h3]
  have "length (closest ?phs origin) = min 3 (length ?phs)" by blast
  then show ?thesis using h1 h3 e by (simp add: distance_at_x)
qed

section \<open>Properties of the trip fetcher\<close>

subsection \<open>Round trips\<close>

lemma process_customer_requests:
  "fst (process_customer session pharmacies evaluate (cus_id, cus_loc, chosen))
     = (case pharmacies chosen of
          None \<Rightarrow> []
        | Some ph_loc \<Rightarrow>
            map (fetch_trip_params cus_id (round_trip cus_loc ph_loc)) [auto, bicycle, pedestrian])"
  by (simp add: process_customer_def fetch_trip_def Let_def split: option.splits)

lemma round_trip_eq:
  "round_trip cus_loc ph_loc
     = [\<lparr>lat = py cus_loc, lon = px cus_loc\<rparr>, \<lparr>lat = py ph_loc, lon = px ph_loc\<rparr>,
        \<lparr>lat = py cus_loc, lon = px cus_loc\<rparr>]"
  by (simp add: round_trip_def Let_def)

text \<open>
  Claim C7: every request that \<^verbatim>\<open>process_customer\<close> sends for a customer carries the
  customer's identifier and a triple of locations whose first and last element are
  the customer's position and whose middle element is the position of the assigned
  pharmacy; for a customer whose pharmacy is in the frame these are three requests, one
  per mode in the order auto, bicycle, pedestrian.
\<close>

theorem requests_are_round_trips:
  "(r \<in> set (fst (process_customer session pharmacies evaluate (cus_id, cus_loc, chosen)))
      \<longrightarrow> (\<exists>ph_loc. pharmacies chosen = Some ph_loc
             \<and> params_id r = cus_id
             \<and> params_locations r
                 = [\<lparr>lat = py cus_loc, lon = px cus_loc\<rparr>, \<lparr>lat = py ph_loc, lon = px ph_loc\<rparr>,
                    \<lparr>lat = py cus_loc, lon = px cus_loc\<rparr>]
             \<and> params_locations r ! 0 = params_locations r ! 2))
   \<and> (pharmacies chosen \<noteq> None
      \<longrightarrow> map costing (fst (process_customer session pharmacies evaluate (cus_id, cus_loc, chosen)))
            = [auto, bicycle, pedestrian])"
proof (intro conjI impI)
  assume r: "r \<in> set (fst (process_customer session pharmacies evaluate (cus_id, cus_loc, chosen)))"
  then obtain ph_loc where ph: "pharmacies chosen = Some ph_loc"
    by (cases "pharmacies chosen") (auto simp: process_customer_requests)
  with r obtain m where "r = fetch_trip_params cus_id (round_trip cus_loc ph_loc) m"
    by (auto simp: process_customer_requests)
  then have "params_id r = cus_id" and "params_locations r = round_trip cus_loc ph_loc"
    by (simp_all add: fetch_trip_params_def)
  then show "\<exists>ph_loc. pharmacies chosen = Some ph_loc
             \<and> params_id r = cus_id
             \<and> params_locations r
                 = [\<lparr>lat = py cus_loc, lon = px cus_loc\<rparr>, \<lparr>lat = py ph_loc, lon = px ph_loc\<rparr>,
                    \<lparr>lat = py cus_loc, lon = px cus_loc\<rparr>]
             \<and> params_locations r ! 0 = params_locations r ! 2"
    using ph by (simp add: round_trip_eq)
next
  assume "pharmacies chosen \<noteq> None"
  then show "map costing (fst (process_customer session pharmacies evaluate (cus_id, cus_loc, chosen)))
            = [auto, bicycle, pedestrian]"
    by (auto simp: process_customer_requests fetch_trip_params_def)
qed

theorem requests_are_round_trips_witness:
  "fst (process_customer example_engine example_pharmacies first_available served_customer)
     = [fetch_trip_params 10 [\<lparr>lat = 49, lon = 12\<rparr>, \<lparr>lat = 48, lon = 11\<rparr>, \<lparr>lat = 49, lon = 12\<rparr>] auto,
        fetch_trip_params 10 [\<lparr>lat = 49, lon = 12\<rparr>, \<lparr>lat = 48, lon = 11\<rparr>, \<lparr>lat = 49, lon = 12\<rparr>] bicycle,
        fetch_trip_params 10 [\<lparr>lat = 49, lon = 12\<rparr>, \<lparr>lat = 48, lon = 11\<rparr>, \<lparr>lat = 49, lon = 12\<rparr>] pedestrian]
   \<and> example_pharmacies 0 = Some \<lparr>px = 11, py = 48\<rparr>
   \<and> params_locations
         (fetch_trip_params 10 [\<lparr>lat = 49, lon = 12\<rparr>, \<lparr>lat = 48, lon = 11\<rparr>, \<lparr>lat = 49, lon = 12\<rparr>] bicycle) ! 0
       = params_locations
         (fetch_trip_params 10 [\<lparr>lat = 49, lon = 12\<rparr>, \<lparr>lat = 48, lon = 11\<rparr>, \<lparr>lat = 49, lon = 12\<rparr>] bicycle) ! 2
   \<and> map costing (fst (process_customer example_engine example_pharmacies first_available served_customer))
       = [auto, bicycle, pedestrian]"
proof -
  let ?locs = "[\<lparr>lat = 49, lon = 12\<rparr>, \<lparr>lat = 48, lon = 11\<rparr>, \<lparr>lat = 49, lon = 12\<rparr>]"
  let ?r = "fetch_trip_params 10 ?locs bicycle"
  let ?run = "process_customer example_engine example_pharmacies first_available
                (10, \<lparr>px = 12, py = 49\<rparr>, 0)"
  have ph: "example_pharmacies 0 = Some \<lparr>px = 11, py = 48\<rparr>"
    by (simp add: example_pharmacies_def)
  have sent: "fst ?run = [fetch_trip_params 10 ?locs auto, ?r, fetch_trip_params 10 ?locs pedestrian]"
    by (simp add: process_customer_requests ph round_trip_eq)
  then have mem: "?r \<in> set (fst ?run)" by simp
  have ne: "example_pharmacies 0 \<noteq> None" using ph by simp
  from requests_are_round_trips[where r = ?r and session = example_engine
      and pharmacies = example_pharmacies and evaluate = first_available and cus_id = 10
      and cus_loc = "\<lparr>px = 12, py = 49\<rparr>" and chosen = 0] mem ne
  have "params_locations ?r ! 0 = params_locations ?r ! 2"
    and "map costing (fst ?run) = [auto, bicycle, pedestrian]" by blast+
  then show ?thesis using sent ph by (simp add: served_customer_def)
qed

subsection \<open>Awaiting the container\<close>

lemma await_ready_Some:
  assumes "await_ready health n = Some r"
  shows "n \<le> r \<and> health r = ''healthy'' \<and> (\<forall>k. n \<le> k \<and> k < r \<longrightarrow> health k \<noteq> ''healthy'')"
proof (rule await_ready.raw_induct
    [where P = "\<lambda>h n r. n \<le> r \<and> h r = ''healthy'' \<and> (\<forall>k. n \<le> k \<and> k < r \<longrightarrow> h k \<noteq> ''healthy'')",
      OF _ assms])
  fix f :: "(nat \<Rightarrow> string) \<Rightarrow> nat \<Rightarrow> nat option" and h n r
  assume ih: "\<And>h n r. f h n = Some r \<Longrightarrow>
      n \<le> r \<and> h r = ''healthy'' \<and> (\<forall>k. n \<le> k \<and> k < r \<longrightarrow> h k \<noteq> ''healthy'')"
    and step: "(if h n \<noteq> ''healthy'' then f h (Suc n) else Some n) = Some r"
  show "n \<le> r \<and> h r = ''healthy'' \<and> (\<forall>k. n \<le> k \<and> k < r \<longrightarrow> h k \<noteq> ''healthy'')"
  proof (cases "h n = ''healthy''")
    case True
    with step show ?thesis by auto
  next
    case False
    with step have "f h (Suc n) = Some r" by simp
    from ih[OF this] have r: "Suc n \<le> r" "h r = ''healthy''"
      "\<And>k. Suc n \<le> k \<Longrightarrow> k < r \<Longrightarrow> h k \<noteq> ''healthy''" by auto
    have "h k \<noteq> ''healthy''" if "n \<le> k" "k < r" for k
    proof (cases "k = n")
      case True then show ?thesis using False by simp
    next
      case False
      then have "Suc n \<le> k" using that(1) by simp
      then show ?thesis using r(3) that(2) by simp
    qed
    then show ?thesis using r(1,2) by simp
  qed
qed

lemma await_ready_first:
  assumes "health (n + d) = ''healthy''" and "\<forall>k. n \<le> k \<and> k < n + d \<longrightarrow> health k \<noteq> ''healthy''"
  shows "await_ready health n = Some (n + d)"
  using assms
proof (induction d arbitrary: n)
  case 0
  then show ?case by (subst await_ready.simps) simp
next
  case (Suc d)
  have "health n \<noteq> ''healthy''" using Suc.prems(2) by simp
  moreover have "await_ready health (Suc n) = Some (Suc n + d)"
    using Suc.prems by (intro Suc.IH) auto
  ultimately show ?case by (subst await_ready.simps) simp
qed

lemma await_ready_None:
  "(await_ready health n = None) = (\<forall>k \<ge> n. health k \<noteq> ''healthy'')"
proof
  assume a: "await_ready health n = None"
  show "\<forall>k \<ge> n. health k \<noteq> ''healthy''"
  proof (rule ccontr)
    assume "\<not> (\<forall>k \<ge> n. health k \<noteq> ''healthy'')"
    then have ex: "\<exists>k. n \<le> k \<and> health k = ''healthy''" by blast
    define m where "m = (LEAST k. n \<le> k \<and> health k = ''healthy'')"
    have m: "n \<le> m \<and> health m = ''healthy''" unfolding m_def using ex by (rule LeastI_ex)
    have least: "\<And>k. n \<le> k \<and> health k = ''healthy'' \<Longrightarrow> m \<le> k"
      unfolding m_def by (rule Least_le)
    have "await_ready health n = Some (n + (m - n))"
    proof (rule await_ready_first)
      show "health (n + (m - n)) = ''healthy''" using m by simp
      show "\<forall>k. n \<le> k \<and> k < n + (m - n) \<longrightarrow> health k \<noteq> ''healthy''"
      proof (intro allI impI)
        fix k assume k: "n \<le> k \<and> k < n + (m - n)"
        then have "k < m" using m by simp
        show "health k \<noteq> ''healthy''"
        proof
          assume "health k = ''healthy''"
          with k have "m \<le> k" by (intro least) simp
          with \<open>k < m\<close> show False by simp
        qed
      qed
    qed
    with a show False by simp
  qed
next
  assume a: "\<forall>k \<ge> n. health k \<noteq> ''healthy''"
  show "await_ready health n = None"
  proof (cases "await_ready health n")
    case None then show ?thesis .
  next
    case (Some r)
    from await_ready_Some[OF Some] a show ?thesis by blast
  qed
qed

subsection \<open>Customers without a viable mode\<close>

lemma gather_Inl:
  "Inl e \<in> set tasks \<Longrightarrow> \<exists>e'. gather tasks trips = Inl e'"
proof (induction tasks trips rule: gather.induct)
  case (1 trips)
  then show ?case by simp
next
  case (2 e tasks trips)
  then show ?case by simp
next
  case (3 cus_id t tasks trips)
  then show ?case by auto
qed

lemma process_customer_no_trip:
  assumes "pharmacies chosen = Some ph_loc"
    and "\<And>m. session (fetch_trip_params cus_id (round_trip cus_loc ph_loc) m) = None"
  shows "snd (process_customer session pharmacies evaluate (cus_id, cus_loc, chosen))
           = Inl ZeroDivisionError"
  using assms by (simp add: process_customer_def fetch_trip_def avg_length_def Let_def)

text \<open>
  Claim C1 asks that a customer whose three requests all come back without trip data
  is recorded as failed, without a division by zero, while the batch goes on. The
  coroutine does otherwise: for such a customer the dictionary \<^verbatim>\<open>results\<close> is empty,
  the average divides by its length 0, and \<^verbatim>\<open>process_customer\<close> ends with
  \<^verbatim>\<open>ZeroDivisionError\<close>; with such a customer in the batch, \<^verbatim>\<open>calculate_trips\<close> never
  returns a dictionary of trips, whatever the other customers are.
\<close>

theorem no_viable_mode_aborts_batch:
  assumes "(cus_id, cus_loc, chosen) \<in> set customers"
    and "pharmacies chosen = Some ph_loc"
    and "\<forall>m. session (fetch_trip_params cus_id (round_trip cus_loc ph_loc) m) = None"
  shows "snd (process_customer session pharmacies (evaluate cus_id) (cus_id, cus_loc, chosen))
           = Inl ZeroDivisionError
       \<and> (\<forall>evs trips. calculate_trips health session pharmacies evaluate customers
                          \<noteq> Some (evs, Inr trips))"
proof -
  let ?cus = "(cus_id, cus_loc, chosen)"
  have p: "snd (process_customer session pharmacies (evaluate cus_id) ?cus) = Inl ZeroDivisionError"
    using assms(2,3) by (intro process_customer_no_trip) auto
  let ?tasks = "map (\<lambda>cus. snd (process_customer session pharmacies (evaluate (fst cus)) cus))
                    customers"
  have "Inl ZeroDivisionError \<in> set ?tasks"
    using assms(1) p by (force simp: image_iff)
  from gather_Inl[OF this] obtain e' where g: "gather ?tasks [] = Inl e'" by blast
  have "calculate_trips health session pharmacies evaluate customers \<noteq> Some (evs, Inr trips)"
    for evs trips
    using g by (simp add: calculate_trips_def Let_def split: option.splits)
  with p show ?thesis by blast
qed

lemma stranded:
  "snd (process_customer example_engine example_pharmacies first_available stranded_customer)
     = Inl ZeroDivisionError"
  by (simp add: process_customer_def stranded_customer_def example_pharmacies_def fetch_trip_def
      fetch_trip_params_def example_engine_def avg_length_def Let_def)

lemma served:
  "snd (process_customer example_engine example_pharmacies first_available served_customer)
     = Inr (10, example_trip 4 \<lparr>mot := Some auto\<rparr>)"
  by (simp add: process_customer_def served_customer_def example_pharmacies_def fetch_trip_def
      fetch_trip_params_def example_engine_def avg_length_def first_available_def Let_def)

lemma await_ready_always: "await_ready always_healthy 0 = Some 0"
  by (subst await_ready.simps) (simp add: always_healthy_def)

lemma await_ready_two: "await_ready healthy_after_two 0 = Some 2"
  using await_ready_first[of healthy_after_two 0 2] by (simp add: healthy_after_two_def)

lemma await_ready_never: "await_ready never_healthy 0 = None"
  by (simp add: await_ready_None never_healthy_def)

theorem no_viable_mode_aborts_batch_witness:
  "stranded_customer \<in> set [served_customer, stranded_customer]
   \<and> example_pharmacies 0 = Some \<lparr>px = 11, py = 48\<rparr>
   \<and> snd (process_customer example_engine example_pharmacies (example_evaluate 20) stranded_customer)
       = Inl ZeroDivisionError
   \<and> calculate_trips always_healthy example_engine example_pharmacies example_evaluate
       [served_customer, stranded_customer] = Some ([Start, Sleep 1], Inl ZeroDivisionError)"
proof -
  have h1: "(20, \<lparr>px = 12, py = 49\<rparr>, 0) \<in> set [served_customer, stranded_customer]"
    by (simp add: stranded_customer_def)
  have h2: "example_pharmacies 0 = Some \<lparr>px = 11, py = 48\<rparr>" by (simp add: example_pharmacies_def)
  have h3: "\<forall>m. example_engine (fetch_trip_params 20 (round_trip \<lparr>px = 12, py = 49\<rparr> \<lparr>px = 11, py = 48\<rparr>) m) = None"
    by (simp add: example_engine_def fetch_trip_params_def)
  from no_viable_mode_aborts_batch[where cus_id = 20 and chosen = 0 and pharmacies = example_pharmacies
      and session = example_engine and evaluate = example_evaluate, OF h1 h2 h3]
  have p: "snd (process_customer example_engine example_pharmacies (example_evaluate 20) stranded_customer)
       = Inl ZeroDivisionError" by (simp add: stranded_customer_def)
  have c: "calculate_trips always_healthy example_engine example_pharmacies example_evaluate
       [served_customer, stranded_customer] = Some ([Start, Sleep 1], Inl ZeroDivisionError)"
    by (simp add: calculate_trips_def await_ready_always example_evaluate_def served stranded
        served_customer_def[symmetric] stranded_customer_def[symmetric])
  show ?thesis using h2 p c by simp
qed

subsection \<open>Stopping the container\<close>

lemma polls_no_Stop: "Stop \<notin> set (concat (replicate n [Sleep d, Reload]))"
  by (induction n) auto

lemma calculate_trips_Some:
  assumes "calculate_trips health session pharmacies evaluate customers = Some (evs, r)"
  shows "\<exists>n. await_ready health 0 = Some n
           \<and> ((\<exists>e. r = Inl e
                  \<and> evs = Start # concat (replicate n [Sleep (1 / 10), Reload]) @ [Sleep 1])
              \<or> (\<exists>trips. r = Inr trips
                  \<and> evs = (Start # concat (replicate n [Sleep (1 / 10), Reload]) @ [Sleep 1]) @ [Stop]))"
proof (cases "await_ready health 0")
  case None
  with assms show ?thesis by (simp add: calculate_trips_def)
next
  case (Some n)
  let ?g = "gather (map (\<lambda>cus. snd (process_customer session pharmacies (evaluate (fst cus)) cus))
                        customers) []"
  show ?thesis
  proof (cases ?g)
    case (Inl e)
    have "calculate_trips health session pharmacies evaluate customers
        = Some (Start # concat (replicate n [Sleep (1 / 10), Reload]) @ [Sleep 1], Inl e)"
      by (simp add: calculate_trips_def Let_def Some Inl)
    with assms have "evs = Start # concat (replicate n [Sleep (1 / 10), Reload]) @ [Sleep 1]"
      and "r = Inl e" by simp_all
    with Some show ?thesis by blast
  next
    case (Inr trips)
    have "calculate_trips health session pharmacies evaluate customers
        = Some ((Start # concat (replicate n [Sleep (1 / 10), Reload]) @ [Sleep 1]) @ [Stop], Inr trips)"
      by (simp add: calculate_trips_def Let_def Some Inr)
    with assms have "evs = (Start # concat (replicate n [Sleep (1 / 10), Reload]) @ [Sleep 1]) @ [Stop]"
      and "r = Inr trips" by simp_all
    with Some show ?thesis by blast
  qed
qed

text \<open>
  Claim C2, amended: \<^verbatim>\<open>calculate_trips\<close> stops the container exactly on normal
  completion. When it returns the trips, \<^verbatim>\<open>stop()\<close> is its last operation on the
  container and happens once; when the processing of a customer raises, it ends with
  that exception and \<^verbatim>\<open>stop()\<close> has not been called.
\<close>

theorem stop_only_on_normal_completion:
  assumes "calculate_trips health session pharmacies evaluate customers = Some (evs, r)"
  shows "(\<forall>e. r = Inl e \<longrightarrow> Stop \<notin> set evs)
       \<and> (\<forall>trips. r = Inr trips \<longrightarrow> (\<exists>before. evs = before @ [Stop] \<and> Stop \<notin> set before))"
proof -
  from calculate_trips_Some[OF assms] obtain n where
    n: "(\<exists>e. r = Inl e
            \<and> evs = Start # concat (replicate n [Sleep (1 / 10), Reload]) @ [Sleep 1])
        \<or> (\<exists>trips. r = Inr trips
            \<and> evs = (Start # concat (replicate n [Sleep (1 / 10), Reload]) @ [Sleep 1]) @ [Stop])"
    by blast
  have no: "Stop \<notin> set (Start # concat (replicate n [Sleep (1 / 10), Reload]) @ [Sleep 1])"
    by (simp add: polls_no_Stop)
  from n show ?thesis
  proof
    assume "\<exists>e. r = Inl e
            \<and> evs = Start # concat (replicate n [Sleep (1 / 10), Reload]) @ [Sleep 1]"
    then show ?thesis using no by auto
  next
    assume "\<exists>trips. r = Inr trips
            \<and> evs = (Start # concat (replicate n [Sleep (1 / 10), Reload]) @ [Sleep 1]) @ [Stop]"
    then show ?thesis using no by blast
  qed
qed

lemma served_run:
  "calculate_trips healthy_after_two example_engine example_pharmacies example_evaluate [served_customer]
     = Some ([Start, Sleep (1 / 10), Reload, Sleep (1 / 10), Reload, Sleep 1, Stop],
             Inr [(10, example_trip 4 \<lparr>mot := Some auto\<rparr>)])"
  by (simp add: calculate_trips_def await_ready_two example_evaluate_def served numeral_2_eq_2)

theorem stop_only_on_normal_completion_witness:
  "calculate_trips healthy_after_two example_engine example_pharmacies example_evaluate [served_customer]
     = Some ([Start, Sleep (1 / 10), Reload, Sleep (1 / 10), Reload, Sleep 1, Stop],
             Inr [(10, example_trip 4 \<lparr>mot := Some auto\<rparr>)])
   \<and> (\<exists>before. [Start, Sleep (1 / 10), Reload, Sleep (1 / 10), Reload, Sleep 1, Stop] = before @ [Stop]
         \<and> Stop \<notin> set before)"
  using stop_only_on_normal_completion[OF served_run] served_run by blast

text \<open>
  Claim C2 as stated (\<^verbatim>\<open>stop()\<close> on every exit path) fails on the error path: a batch of
  one customer without any route ends with the exception, and the container was
  started but not stopped.
\<close>

theorem stop_skipped_on_error:
  "calculate_trips always_healthy example_engine example_pharmacies example_evaluate [stranded_customer]
     = Some ([Start, Sleep 1], Inl ZeroDivisionError)
   \<and> Stop \<notin> set [Start, Sleep 1]"
  by (simp add: calculate_trips_def await_ready_always example_evaluate_def stranded)

text \<open>
  Claim C3 as stated (a deadline after which the wait fails) does not hold: for a
  container that never reports healthy the loop has no result at all, neither a value
  nor an exception, and so has the batch.
\<close>

theorem never_healthy_polls_forever:
  "await_ready never_healthy 0 = None
   \<and> calculate_trips never_healthy example_engine example_pharmacies example_evaluate [served_customer]
       = None"
  by (simp add: calculate_trips_def await_ready_never)

lemma calculate_trips_None:
  "(calculate_trips health session pharmacies evaluate customers = None)
     = (await_ready health 0 = None)"
  by (simp add: calculate_trips_def Let_def split: option.splits sum.splits)

text \<open>
  Claim C3, amended: the wait has no deadline. \<^verbatim>\<open>calculate_trips\<close> fails to return
  exactly when the container never reports healthy. When the first healthy report
  comes after \<open>n\<close> reloads, the loop ends after exactly \<open>n\<close> rounds, each a pause of 0.1 s
  followed by a reload, and only then does the batch go on (with a pause of 1 s and the
  customers).
\<close>

theorem await_ready_unbounded:
  "(calculate_trips health session pharmacies evaluate customers = None
      \<longleftrightarrow> (\<forall>k. health k \<noteq> ''healthy''))
   \<and> (health n = ''healthy'' \<and> (\<forall>k < n. health k \<noteq> ''healthy'')
        \<longrightarrow> await_ready health 0 = Some n
          \<and> (\<exists>rest r. calculate_trips health session pharmacies evaluate customers
                = Some (Start # concat (replicate n [Sleep (1 / 10), Reload]) @ Sleep 1 # rest, r)))"
proof (intro conjI impI)
  show "calculate_trips health session pharmacies evaluate customers = None
      \<longleftrightarrow> (\<forall>k. health k \<noteq> ''healthy'')"
    by (simp add: calculate_trips_None await_ready_None)
next
  assume a: "health n = ''healthy'' \<and> (\<forall>k < n. health k \<noteq> ''healthy'')"
  then show "await_ready health 0 = Some n"
    using await_ready_first[of health 0 n] by simp
next
  assume a: "health n = ''healthy'' \<and> (\<forall>k < n. health k \<noteq> ''healthy'')"
  then have r: "await_ready health 0 = Some n"
    using await_ready_first[of health 0 n] by simp
  show "\<exists>rest r. calculate_trips health session pharmacies evaluate customers
                = Some (Start # concat (replicate n [Sleep (1 / 10), Reload]) @ Sleep 1 # rest, r)"
    by (auto simp: calculate_trips_def Let_def r split: sum.splits)
qed

theorem await_ready_unbounded_witness:
  "healthy_after_two 2 = ''healthy'' \<and> healthy_after_two 0 \<noteq> ''healthy''
   \<and> healthy_after_two 1 \<noteq> ''healthy''
   \<and> await_ready healthy_after_two 0 = Some 2
   \<and> calculate_trips healthy_after_two example_engine example_pharmacies example_evaluate
        [served_customer] \<noteq> None"
proof -
  have h: "healthy_after_two 2 = ''healthy'' \<and> (\<forall>k < 2. healthy_after_two k \<noteq> ''healthy'')"
    by (simp add: healthy_after_two_def)
  from await_ready_unbounded[of healthy_after_two example_engine example_pharmacies example_evaluate
      "[served_customer]" 2] h
  have "await_ready healthy_after_two 0 = Some 2" 
    and "calculate_trips healthy_after_two example_engine example_pharmacies example_evaluate
        [served_customer] \<noteq> None" by auto
  then show ?thesis by (simp add: healthy_after_two_def)
qed


section \<open>Properties of the mode probability table\<close>

subsection \<open>Buckets\<close>

lemma index_eq:
  "index = [(Finite 0, Finite (1 / 2)), (Finite (1 / 2), Finite 1), (Finite 1, Finite 2),
            (Finite 2, Finite 5), (Finite 5, Finite 10), (Finite 10, Finite 20),
            (Finite 20, Finite 50), (Finite 50, Finite 100), (Finite 100, PosInf)]"
  by (simp add: index_def breaks_def)

lemma upt_9: "[0 ..< 9] = [0, 1, 2, 3, 4, 5, 6, 7, 8]"
  by (simp add: upt_rec)

lemma less_9_cases:
  assumes "j < (9::nat)"
  shows "j = 0 \<or> j = 1 \<or> j = 2 \<or> j = 3 \<or> j = 4 \<or> j = 5 \<or> j = 6 \<or> j = 7 \<or> j = 8"
  using assms by arith

lemma bucket_cases:
  fixes x :: real
  assumes "0 \<le> x"
  shows "x < 1 / 2 \<or> (1 / 2 \<le> x \<and> x < 1) \<or> (1 \<le> x \<and> x < 2) \<or> (2 \<le> x \<and> x < 5)
       \<or> (5 \<le> x \<and> x < 10) \<or> (10 \<le> x \<and> x < 20) \<or> (20 \<le> x \<and> x < 50)
       \<or> (50 \<le> x \<and> x < 100) \<or> 100 \<le> x"
  by linarith

lemma get_loc_index:
  fixes x :: real
  shows "x < 0 \<Longrightarrow> get_loc index x = Inl KeyError"
    and "0 \<le> x \<Longrightarrow> x < 1 / 2 \<Longrightarrow> get_loc index x = Inr 0"
    and "1 / 2 \<le> x \<Longrightarrow> x < 1 \<Longrightarrow> get_loc index x = Inr 1"
    and "1 \<le> x \<Longrightarrow> x < 2 \<Longrightarrow> get_loc index x = Inr 2"
    and "2 \<le> x \<Longrightarrow> x < 5 \<Longrightarrow> get_loc index x = Inr 3"
    and "5 \<le> x \<Longrightarrow> x < 10 \<Longrightarrow> get_loc index x = Inr 4"
    and "10 \<le> x \<Longrightarrow> x < 20 \<Longrightarrow> get_loc index x = Inr 5"
    and "20 \<le> x \<Longrightarrow> x < 50 \<Longrightarrow> get_loc index x = Inr 6"
    and "50 \<le> x \<Longrightarrow> x < 100 \<Longrightarrow> get_loc index x = Inr 7"
    and "100 \<le> x \<Longrightarrow> get_loc index x = Inr 8"
  by (simp_all add: get_loc_def index_eq upt_9)

lemma contains_index:
  fixes x :: real
  shows "contains (index ! 0) x \<longleftrightarrow> 0 \<le> x \<and> x < 1 / 2"
    and "contains (index ! 1) x \<longleftrightarrow> 1 / 2 \<le> x \<and> x < 1"
    and "contains (index ! 2) x \<longleftrightarrow> 1 \<le> x \<and> x < 2"
    and "contains (index ! 3) x \<longleftrightarrow> 2 \<le> x \<and> x < 5"
    and "contains (index ! 4) x \<longleftrightarrow> 5 \<le> x \<and> x < 10"
    and "contains (index ! 5) x \<longleftrightarrow> 10 \<le> x \<and> x < 20"
    and "contains (index ! 6) x \<longleftrightarrow> 20 \<le> x \<and> x < 50"
    and "contains (index ! 7) x \<longleftrightarrow> 50 \<le> x \<and> x < 100"
    and "contains (index ! 8) x \<longleftrightarrow> 100 \<le> x"
  by (simp_all add: index_eq)


lemma contains_index_Suc:
  fixes x :: real
  shows "contains (index ! Suc 0) x \<longleftrightarrow> 1 / 2 \<le> x \<and> x < 1"
  using contains_index(2)[of x] by simp

lemma contains_get_loc:
  assumes "k < 9" and "contains (index ! k) x"
  shows "get_loc index x = Inr k"
  using less_9_cases[OF assms(1)]
proof (elim disjE)
  assume "k = 0"
  with assms(2) show ?thesis by (simp add: contains_index(1) get_loc_index(2))
next
  assume "k = 1"
  with assms(2) show ?thesis by (simp add: contains_index_Suc get_loc_index(3))
next
  assume "k = 2"
  with assms(2) show ?thesis by (simp add: contains_index(3) get_loc_index(4))
next
  assume "k = 3"
  with assms(2) show ?thesis by (simp add: contains_index(4) get_loc_index(5))
next
  assume "k = 4"
  with assms(2) show ?thesis by (simp add: contains_index(5) get_loc_index(6))
next
  assume "k = 5"
  with assms(2) show ?thesis by (simp add: contains_index(6) get_loc_index(7))
next
  assume "k = 6"
  with assms(2) show ?thesis by (simp add: contains_index(7) get_loc_index(8))
next
  assume "k = 7"
  with assms(2) show ?thesis by (simp add: contains_index(8) get_loc_index(9))
next
  assume "k = 8"
  with assms(2) show ?thesis by (simp add: contains_index(9) get_loc_index(10))
qed

lemma contains_unique:
  assumes "i < 9" and "j < 9" and "contains (index ! i) x" and "contains (index ! j) x"
  shows "i = j"
  using contains_get_loc[OF assms(1,3)] contains_get_loc[OF assms(2,4)] by simp

lemma get_loc_contains:
  assumes "0 \<le> x"
  shows "\<exists>i < 9. get_loc index x = Inr i \<and> contains (index ! i) x"
proof -
  consider "x < 1 / 2" | "1 / 2 \<le> x \<and> x < 1" | "1 \<le> x \<and> x < 2" | "2 \<le> x \<and> x < 5"
    | "5 \<le> x \<and> x < 10" | "10 \<le> x \<and> x < 20" | "20 \<le> x \<and> x < 50"
    | "50 \<le> x \<and> x < 100" | "100 \<le> x"
    using bucket_cases[OF assms] by blast
  then show ?thesis
  proof cases
    case 1
    with assms have "get_loc index x = Inr 0" "contains (index ! 0) x"
      using get_loc_index(2)[of x] contains_index(1)[of x] by blast+
    then show ?thesis by (intro exI[of _ 0]) simp
  next
    case 2
    then have "get_loc index x = Inr 1" "contains (index ! 1) x"
      using get_loc_index(3)[of x] contains_index(2)[of x] by blast+
    then show ?thesis by (intro exI[of _ 1]) simp
  next
    case 3
    then have "get_loc index x = Inr 2" "contains (index ! 2) x"
      using get_loc_index(4)[of x] contains_index(3)[of x] by blast+
    then show ?thesis by (intro exI[of _ 2]) simp
  next
    case 4
    then have "get_loc index x = Inr 3" "contains (index ! 3) x"
      using get_loc_index(5)[of x] contains_index(4)[of x] by blast+
    then show ?thesis by (intro exI[of _ 3]) simp
  next
    case 5
    then have "get_loc index x = Inr 4" "contains (index ! 4) x"
      using get_loc_index(6)[of x] contains_index(5)[of x] by blast+
    then show ?thesis by (intro exI[of _ 4]) simp
  next
    case 6
    then have "get_loc index x = Inr 5" "contains (index ! 5) x"
      using get_loc_index(7)[of x] contains_index(6)[of x] by blast+
    then show ?thesis by (intro exI[of _ 5]) simp
  next
    case 7
    then have "get_loc index x = Inr 6" "contains (index ! 6) x"
      using get_loc_index(8)[of x] contains_index(7)[of x] by blast+
    then show ?thesis by (intro exI[of _ 6]) simp
  next
    case 8
    then have "get_loc index x = Inr 7" "contains (index ! 7) x"
      using get_loc_index(9)[of x] contains_index(8)[of x] by blast+
    then show ?thesis by (intro exI[of _ 7]) simp
  next
    case 9
    then have "get_loc index x = Inr 8" "contains (index ! 8) x"
      using get_loc_index(10)[of x] contains_index(9)[of x] by blast+
    then show ?thesis by (intro exI[of _ 8]) simp
  qed
qed

text \<open>
  Claim C8: the buckets are the left-closed intervals between consecutive breaks,
  from 0 up to infinity. Every length from 0 on lies in exactly one of them and the
  lookup returns its position; a length on an interior break belongs to the bucket
  that starts there, so 2 is found in the bucket from 2 to 5 (position 3) and not in
  the bucket from 1 to 2. A negative length lies in no bucket.
\<close>

theorem left_closed_buckets:
  "(0 \<le> x \<longrightarrow>
      (\<exists>i < length index. get_loc index x = Inr i \<and> contains (index ! i) x
          \<and> (\<forall>j < length index. contains (index ! j) x \<longrightarrow> j = i)))
   \<and> (x < 0 \<longrightarrow> get_loc index x = Inl KeyError)
   \<and> get_loc index 2 = Inr 3
   \<and> index ! 3 = (Finite 2, Finite 5)
   \<and> index ! 2 = (Finite 1, Finite 2)
   \<and> \<not> contains (index ! 2) 2"
proof -
  have len: "length index = 9" by (simp add: index_eq)
  have a: "\<exists>i < length index. get_loc index x = Inr i \<and> contains (index ! i) x
          \<and> (\<forall>j < length index. contains (index ! j) x \<longrightarrow> j = i)" if "0 \<le> x"
  proof -
    from get_loc_contains[OF that] obtain i
      where i: "i < 9" "get_loc index x = Inr i" "contains (index ! i) x" by blast
    have "\<forall>j < 9. contains (index ! j) x \<longrightarrow> j = i"
      using contains_unique[OF _ i(1) _ i(3)] by blast
    with i show ?thesis unfolding len by blast
  qed
  have b: "get_loc index 2 = Inr 3" by (simp add: get_loc_index)
  have c: "index ! 3 = (Finite 2, Finite 5)" "index ! 2 = (Finite 1, Finite 2)"
    by (simp_all add: index_eq)
  have d: "\<not> contains (index ! 2) 2" by (simp add: contains_index)
  show ?thesis using a b c d by (simp add: get_loc_index)
qed

theorem left_closed_buckets_witness:
  "(0::real) \<le> 2 \<and> get_loc index 2 = Inr 3 \<and> contains (index ! 3) 2
   \<and> \<not> contains (index ! 2) 2 \<and> get_loc index 100 = Inr 8 \<and> get_loc index 0 = Inr 0"
  using left_closed_buckets[of 2] left_closed_buckets[of 100] left_closed_buckets[of 0]
  by (simp add: get_loc_index contains_index)

subsection \<open>Rows\<close>


text \<open>
  Two rows that the division does not turn into a distribution over the three modes:
  a missing motorised share leaves \<^verbatim>\<open>nan\<close> for auto while the other two shares are
  divided by their own sum, and a row without mass becomes \<^verbatim>\<open>nan\<close> throughout.
\<close>

lemma normalize_missing_share:
  "normalize (example_rows ! 1) = [(auto, NaN), (bicycle, Finite (2 / 5)), (pedestrian, Finite (3 / 5))]"
  by (simp add: example_rows_def normalize_def row_sum_def fdiv_def)

lemma normalize_no_mass:
  "normalize (example_rows ! 2) = [(auto, NaN), (bicycle, NaN), (pedestrian, NaN)]"
  by (simp add: example_rows_def normalize_def row_sum_def fdiv_def)




section \<open>Properties of the mode inference\<close>

subsection \<open>Weights and the draw\<close>











subsection \<open>The mode of the returned trip\<close>








end
